theory Spec2Isabelle
  imports Complex_Main "HOL-Library.Word" "HOL-Library.Log_Nat"
begin

section \<open>float64 arithmetic\<close>

text \<open>
  \<^verbatim>\<open>type proportion float64\<close>.  A float64 is modelled by the real number it
  denotes, or an infinity, or NaN; every operation computes the exact result and rounds
  it to the nearest binary64 value, ties to even (53 significant bits, exponents
  from -1022 to 1023, gradual underflow, overflow to an infinity).  The two zeros
  of IEEE 754 are identified: they differ only as divisors, and
  the layout code divides by child counts only, which are at least 1.
\<close>

datatype float64 = Finite real | PInf | NInf | NaN

text \<open>\<open>ilog2 x\<close> is the exponent of the binade of a positive \<open>x\<close>.\<close>

definition ilog2 :: "real \<Rightarrow> int" where
  "ilog2 x = (if 1 \<le> x then bitlen \<lfloor>x\<rfloor> - 1 else - bitlen (\<lceil>1 / x\<rceil> - 1))"

text \<open>Rounding to the nearest integer, ties to the even one.\<close>

definition rne :: "real \<Rightarrow> int" where
  "rne x = (let f = \<lfloor>x\<rfloor>; d = x - of_int f
            in if d < 1 / 2 then f else if 1 / 2 < d then f + 1
               else if even f then f else f + 1)"

definition round64 :: "real \<Rightarrow> float64" where
  "round64 x =
     (if x = 0 then Finite 0
      else let e = max (ilog2 \<bar>x\<bar>) (- 1022);
               q = 2 powi (e - 52);
               r = of_int (rne (x / q)) * q
           in if 2 ^ 1024 \<le> \<bar>r\<bar> then (if 0 < x then PInf else NInf) else Finite r)"

text \<open>
  The operations the package uses: negation, sum, difference, product, quotient,
  absolute value (\<^verbatim>\<open>math.Abs\<close>) and the comparison \<^verbatim>\<open><\<close>, with the results that
  IEEE 754 gives for the infinities and NaN.
\<close>

fun fneg :: "float64 \<Rightarrow> float64" where
  "fneg (Finite a) = Finite (- a)"
| "fneg PInf = NInf"
| "fneg NInf = PInf"
| "fneg NaN = NaN"

fun fadd :: "float64 \<Rightarrow> float64 \<Rightarrow> float64" where
  "fadd (Finite a) (Finite b) = round64 (a + b)"
| "fadd NaN y = NaN"
| "fadd x NaN = NaN"
| "fadd PInf NInf = NaN"
| "fadd NInf PInf = NaN"
| "fadd PInf y = PInf"
| "fadd NInf y = NInf"
| "fadd (Finite a) y = y"

definition fsub :: "float64 \<Rightarrow> float64 \<Rightarrow> float64" where
  "fsub x y = fadd x (fneg y)"

text \<open>The sign rule for a product or quotient with an infinite result.\<close>

definition signed_inf :: "bool \<Rightarrow> float64" where
  "signed_inf negative = (if negative then NInf else PInf)"

fun is_negative :: "float64 \<Rightarrow> bool" where
  "is_negative (Finite a) = (a < 0)"
| "is_negative NInf = True"
| "is_negative x = False"

fun fmul :: "float64 \<Rightarrow> float64 \<Rightarrow> float64" where
  "fmul (Finite a) (Finite b) = round64 (a * b)"
| "fmul NaN y = NaN"
| "fmul x NaN = NaN"
| "fmul (Finite a) y = (if a = 0 then NaN else signed_inf ((a < 0) \<noteq> is_negative y))"
| "fmul x (Finite b) = (if b = 0 then NaN else signed_inf (is_negative x \<noteq> (b < 0)))"
| "fmul x y = signed_inf (is_negative x \<noteq> is_negative y)"

fun fdiv :: "float64 \<Rightarrow> float64 \<Rightarrow> float64" where
  "fdiv (Finite a) (Finite b) =
     (if b = 0 then (if a = 0 then NaN else signed_inf (a < 0)) else round64 (a / b))"
| "fdiv NaN y = NaN"
| "fdiv x NaN = NaN"
| "fdiv (Finite a) y = Finite 0"
| "fdiv x (Finite b) = signed_inf (is_negative x \<noteq> (b < 0))"
| "fdiv x y = NaN"

fun fabs :: "float64 \<Rightarrow> float64" where
  "fabs (Finite a) = Finite \<bar>a\<bar>"
| "fabs PInf = PInf"
| "fabs NInf = PInf"
| "fabs NaN = NaN"

fun flt :: "float64 \<Rightarrow> float64 \<Rightarrow> bool" where
  "flt (Finite a) (Finite b) = (a < b)"
| "flt NaN y = False"
| "flt x NaN = False"
| "flt x NInf = False"
| "flt PInf y = False"
| "flt x y = True"

text \<open>
  Go's \<^verbatim>\<open>int\<close> is taken as the 64-bit type of the platforms the window manager runs
  on; \<^verbatim>\<open>proportion(size)\<close> converts it to the nearest float64.  A slice length
  is a natural number.
\<close>

type_synonym go_int = "64 word"

definition float_of_int :: "go_int \<Rightarrow> float64" where
  "float_of_int i = round64 (of_int (sint i))"

definition float_of_len :: "nat \<Rightarrow> float64" where
  "float_of_len n = round64 (of_nat n)"

section \<open>Proportions\<close>

type_synonym proportion = float64

definition fullPortion :: proportion where
  "fullPortion = round64 1"

definition epsilon :: float64 where
  "epsilon = round64 (1 / 10000)"

text \<open>
  \<^verbatim>\<open>portion\<close> calls \<^verbatim>\<open>misc.Round\<close>, a function of another package of the repository;
  the rounding function is the parameter \<open>rnd\<close>.
\<close>

definition portion :: "(float64 \<Rightarrow> go_int) \<Rightarrow> proportion \<Rightarrow> go_int \<Rightarrow> go_int" where
  "portion rnd p sz = rnd (fmul (float_of_int sz) p)"

definition equal :: "proportion \<Rightarrow> proportion \<Rightarrow> bool" where
  "equal p1 p2 = flt (fabs (fsub p1 p2)) epsilon"

section \<open>Nodes, the heap and the clients\<close>

text \<open>
  A \<^verbatim>\<open>node\<close> interface value that is not nil is a pointer to a split (an
  \<^verbatim>\<open>hsplit\<close> or a \<^verbatim>\<open>vsplit\<close>, told apart by the \<open>kind\<close> of the object) or to a leaf.
  Pointers are addresses into two typed heaps.  A \<^verbatim>\<open>Client\<close> is compared by identity
  and is modelled by its identity.  The calls made on clients are recorded in order.
\<close>

type_synonym addr = nat

type_synonym Client = nat

datatype node = SplitRef addr | LeafRef addr

datatype kind = HSplit | VSplit

record split =
  kind :: kind
  parent :: "node option"
  children :: "node list"
  prop' :: proportion

record leaf =
  parent :: "node option"
  client :: Client
  prop' :: proportion

datatype call =
  CallFrameTile Client
| CallMoveResize Client go_int go_int go_int go_int

record world =
  splits :: "addr \<Rightarrow> split"
  leaves :: "addr \<Rightarrow> leaf"
  calls :: "call list"

record tree =
  child :: "node option"

record rect =
  X :: go_int
  Y :: go_int
  Width :: go_int
  Height :: go_int

text \<open>The panics of the package.\<close>

datatype error = PortionsNotEqual | NotInSplit | SliceBoundsOutOfRange

definition newTree :: tree where
  "newTree = \<lparr>child = None\<rparr>"

text \<open>
  The constructors build the object that the caller then stores at a fresh address; a
  field they do not set has the zero value of its type.
\<close>

definition newLeaf :: "node option \<Rightarrow> Client \<Rightarrow> leaf" where
  "newLeaf p c = \<lparr>parent = p, client = c, prop' = Finite 0\<rparr>"

definition newHSplit :: "node option \<Rightarrow> split" where
  "newHSplit p = \<lparr>kind = HSplit, parent = p, children = [], prop' = Finite 0\<rparr>"

definition newVSplit :: "node option \<Rightarrow> split" where
  "newVSplit p = \<lparr>kind = VSplit, parent = p, children = [], prop' = Finite 0\<rparr>"

definition setChild :: "node option \<Rightarrow> tree \<Rightarrow> tree" where
  "setChild n t = t\<lparr>child := n\<rparr>"

fun Proportion :: "world \<Rightarrow> node \<Rightarrow> proportion" where
  "Proportion w (SplitRef a) = split.prop' (splits w a)"
| "Proportion w (LeafRef a) = leaf.prop' (leaves w a)"

fun SetProportion :: "node \<Rightarrow> proportion \<Rightarrow> world \<Rightarrow> world" where
  "SetProportion (SplitRef a) p w = w\<lparr>splits := (splits w)(a := (splits w a)\<lparr>split.prop' := p\<rparr>)\<rparr>"
| "SetProportion (LeafRef a) p w = w\<lparr>leaves := (leaves w)(a := (leaves w a)\<lparr>leaf.prop' := p\<rparr>)\<rparr>"

fun Parent :: "world \<Rightarrow> node \<Rightarrow> node option" where
  "Parent w (SplitRef a) = split.parent (splits w a)"
| "Parent w (LeafRef a) = leaf.parent (leaves w a)"

fun SetParent :: "node \<Rightarrow> node option \<Rightarrow> world \<Rightarrow> world" where
  "SetParent (SplitRef a) n w = w\<lparr>splits := (splits w)(a := (splits w a)\<lparr>split.parent := n\<rparr>)\<rparr>"
| "SetParent (LeafRef a) n w = w\<lparr>leaves := (leaves w)(a := (leaves w a)\<lparr>leaf.parent := n\<rparr>)\<rparr>"

definition set_children :: "addr \<Rightarrow> node list \<Rightarrow> world \<Rightarrow> world" where
  "set_children s cs w = w\<lparr>splits := (splits w)(s := (splits w s)\<lparr>children := cs\<rparr>)\<rparr>"

section \<open>Split containers\<close>

text \<open>The sum that \<^verbatim>\<open>checkPortions\<close> accumulates, in the order of the children.\<close>

definition sum_portions :: "world \<Rightarrow> node list \<Rightarrow> proportion" where
  "sum_portions w cs = foldl (\<lambda>sum c. fadd sum (Proportion w c)) (Finite 0) cs"

definition checkPortions :: "world \<Rightarrow> addr \<Rightarrow> error + unit" where
  "checkPortions w s =
     (if length (children (splits w s)) = 0 then Inr ()
      else if \<not> equal (sum_portions w (children (splits w s))) fullPortion
           then Inl PortionsNotEqual
           else Inr ())"

text \<open>The two loops that shift the proportion of every child by a fixed amount.\<close>

definition chop_children :: "proportion \<Rightarrow> node list \<Rightarrow> world \<Rightarrow> world" where
  "chop_children chop cs w = foldl (\<lambda>w c. SetProportion c (fsub (Proportion w c) chop) w) w cs"

definition grow_children :: "proportion \<Rightarrow> node list \<Rightarrow> world \<Rightarrow> world" where
  "grow_children leftovers cs w =
     foldl (\<lambda>w c. SetProportion c (fadd (Proportion w c) leftovers) w) w cs"

definition addNode :: "addr \<Rightarrow> node \<Rightarrow> bool \<Rightarrow> world \<Rightarrow> error + world" where
  "addNode s n last' w =
     (let len = length (children (splits w s));
          newProp = fdiv fullPortion (float_of_len (len + 1));
          w1 = (if len > 0
                then chop_children (fdiv newProp (float_of_len len)) (children (splits w s)) w
                else w);
          w2 = SetProportion n newProp w1;
          w3 = (if last'
                then set_children s (children (splits w2 s) @ [n]) w2
                else set_children s ([n] @ children (splits w2 s)) w2)
      in case checkPortions w3 s of Inl e \<Rightarrow> Inl e | Inr u \<Rightarrow> Inr w3)"

text \<open>
  The removal loop ranges over the slice as it was when the loop started (\<open>arr\<close>, the
  backing array up to the original length) while the body shortens \<^verbatim>\<open>s.children\<close>
  in place: \<^verbatim>\<open>append(s.children[:i], s.children[i+1:]...)\<close> moves the elements from
  \<open>i + 1\<close> up to the current length \<open>len\<close> one place down in the same array and panics
  when \<open>i + 1\<close> exceeds the current length.  \<open>k\<close> counts the iterations left.
\<close>

fun remove_loop ::
  "node \<Rightarrow> nat \<Rightarrow> nat \<Rightarrow> node list \<Rightarrow> nat \<Rightarrow> bool \<Rightarrow> error + (node list \<times> nat \<times> bool)" where
  "remove_loop n 0 i arr len removed = Inr (arr, len, removed)"
| "remove_loop n (Suc k) i arr len removed =
     (if arr ! i = n
      then (if len < i + 1 then Inl SliceBoundsOutOfRange
            else let moved = take (len - (i + 1)) (drop (i + 1) arr);
                     arr' = take i arr @ moved @ drop (i + length moved) arr
                 in remove_loop n k (i + 1) arr' (i + length moved) True)
      else remove_loop n k (i + 1) arr len removed)"

definition removeNode :: "addr \<Rightarrow> node \<Rightarrow> world \<Rightarrow> error + world" where
  "removeNode s n w =
     (let cs = children (splits w s)
      in case remove_loop n (length cs) 0 cs (length cs) False of
           Inl e \<Rightarrow> Inl e
         | Inr (arr, len, removed) \<Rightarrow>
             if \<not> removed then Inl NotInSplit
             else let w1 = set_children s (take len arr) w
                  in if length (children (splits w1 s)) > 0
                     then let leftovers =
                                fdiv (Proportion w1 n) (float_of_len (length (children (splits w1 s))));
                              w2 = grow_children leftovers (children (splits w1 s)) w1
                          in (case checkPortions w2 s of Inl e \<Rightarrow> Inl e | Inr u \<Rightarrow> Inr w2)
                     else Inr w1)"

section \<open>Traversals\<close>

text \<open>
  The three recursive methods of a node follow the child pointers of the heap, which
  may form a cycle, so a call through the \<^verbatim>\<open>node\<close> interface takes fuel: one unit
  for every split entered, and \<open>None\<close> when it runs out.  A leaf needs none.  The
  method of a split receives the method of its children as a parameter, which is the
  interface call at the remaining fuel.
\<close>

text \<open>
  \<^verbatim>\<open>VisitLeafNodes\<close>: the visitor \<open>f\<close> is a closure; the variables it assigns are the
  accumulator it is given and returns, with its verdict.
\<close>

primrec split_VisitLeafNodes ::
    "(node \<Rightarrow> (addr \<Rightarrow> 'a \<Rightarrow> bool \<times> 'a) \<Rightarrow> 'a \<Rightarrow> (bool \<times> 'a) option) \<Rightarrow>
       node list \<Rightarrow> (addr \<Rightarrow> 'a \<Rightarrow> bool \<times> 'a) \<Rightarrow> 'a \<Rightarrow> (bool \<times> 'a) option" where
  "split_VisitLeafNodes child_VisitLeafNodes [] f acc = Some (True, acc)"
| "split_VisitLeafNodes child_VisitLeafNodes (c # cs) f acc =
     (case child_VisitLeafNodes c f acc of
        None \<Rightarrow> None
      | Some (continue, acc') \<Rightarrow>
          if \<not> continue then Some (False, acc')
          else split_VisitLeafNodes child_VisitLeafNodes cs f acc')"

primrec VisitLeafNodes ::
    "nat \<Rightarrow> world \<Rightarrow> node \<Rightarrow> (addr \<Rightarrow> 'a \<Rightarrow> bool \<times> 'a) \<Rightarrow> 'a \<Rightarrow> (bool \<times> 'a) option" where
  "VisitLeafNodes 0 w n f acc =
     (case n of
        LeafRef a \<Rightarrow> Some (f a acc)
      | SplitRef a \<Rightarrow> None)"
| "VisitLeafNodes (Suc k) w n f acc =
     (case n of
        LeafRef a \<Rightarrow> Some (f a acc)
      | SplitRef a \<Rightarrow> split_VisitLeafNodes (VisitLeafNodes k w) (children (splits w a)) f acc)"

definition leaf_ValidDims ::
    "go_int \<Rightarrow> go_int \<Rightarrow> go_int \<Rightarrow> go_int \<Rightarrow> go_int \<Rightarrow> go_int \<Rightarrow> bool" where
  "leaf_ValidDims w h minw minh maxw maxh =
     (minw \<le>s w \<and> minh \<le>s h \<and> w \<le>s maxw \<and> h \<le>s maxh)"

type_synonym validator =
  "node \<Rightarrow> go_int \<Rightarrow> go_int \<Rightarrow> go_int \<Rightarrow> go_int \<Rightarrow> go_int \<Rightarrow> go_int \<Rightarrow> bool option"

primrec hsplit_ValidDims ::
    "validator \<Rightarrow> (float64 \<Rightarrow> go_int) \<Rightarrow> world \<Rightarrow> node list \<Rightarrow>
       go_int \<Rightarrow> go_int \<Rightarrow> go_int \<Rightarrow> go_int \<Rightarrow> go_int \<Rightarrow> go_int \<Rightarrow> bool option" where
  "hsplit_ValidDims child_ValidDims rnd wd [] w h minw minh maxw maxh = Some True"
| "hsplit_ValidDims child_ValidDims rnd wd (c # cs) w h minw minh maxw maxh =
     (let childw = portion rnd (Proportion wd c) w
      in case child_ValidDims c childw h minw minh maxw maxh of
           None \<Rightarrow> None
         | Some ok \<Rightarrow>
             if \<not> ok then Some False
             else hsplit_ValidDims child_ValidDims rnd wd cs w h minw minh maxw maxh)"

primrec vsplit_ValidDims ::
    "validator \<Rightarrow> (float64 \<Rightarrow> go_int) \<Rightarrow> world \<Rightarrow> node list \<Rightarrow>
       go_int \<Rightarrow> go_int \<Rightarrow> go_int \<Rightarrow> go_int \<Rightarrow> go_int \<Rightarrow> go_int \<Rightarrow> bool option" where
  "vsplit_ValidDims child_ValidDims rnd wd [] w h minw minh maxw maxh = Some True"
| "vsplit_ValidDims child_ValidDims rnd wd (c # cs) w h minw minh maxw maxh =
     (let childh = portion rnd (Proportion wd c) h
      in case child_ValidDims c w childh minw minh maxw maxh of
           None \<Rightarrow> None
         | Some ok \<Rightarrow>
             if \<not> ok then Some False
             else vsplit_ValidDims child_ValidDims rnd wd cs w h minw minh maxw maxh)"

primrec ValidDims :: "nat \<Rightarrow> (float64 \<Rightarrow> go_int) \<Rightarrow> world \<Rightarrow> validator" where
  "ValidDims 0 rnd wd n w h minw minh maxw maxh =
     (case n of
        LeafRef a \<Rightarrow> Some (leaf_ValidDims w h minw minh maxw maxh)
      | SplitRef a \<Rightarrow> None)"
| "ValidDims (Suc k) rnd wd n w h minw minh maxw maxh =
     (case n of
        LeafRef a \<Rightarrow> Some (leaf_ValidDims w h minw minh maxw maxh)
      | SplitRef a \<Rightarrow>
          (case kind (splits wd a) of
             HSplit \<Rightarrow>
               hsplit_ValidDims (ValidDims k rnd wd) rnd wd (children (splits wd a))
                 w h minw minh maxw maxh
           | VSplit \<Rightarrow>
               vsplit_ValidDims (ValidDims k rnd wd) rnd wd (children (splits wd a))
                 w h minw minh maxw maxh))"

text \<open>
  \<^verbatim>\<open>leaf.MoveResize\<close> makes two calls on the client of the leaf; the world records them.
\<close>

definition leaf_MoveResize ::
    "addr \<Rightarrow> go_int \<Rightarrow> go_int \<Rightarrow> go_int \<Rightarrow> go_int \<Rightarrow> world \<Rightarrow> world" where
  "leaf_MoveResize a x y width height wd =
     (let wd1 = wd\<lparr>calls := calls wd @ [CallFrameTile (client (leaves wd a))]\<rparr>
      in wd1\<lparr>calls := calls wd1 @ [CallMoveResize (client (leaves wd1 a)) x y width height]\<rparr>)"

type_synonym mover =
  "node \<Rightarrow> go_int \<Rightarrow> go_int \<Rightarrow> go_int \<Rightarrow> go_int \<Rightarrow> world \<Rightarrow> world option"

primrec hsplit_MoveResize ::
    "mover \<Rightarrow> (float64 \<Rightarrow> go_int) \<Rightarrow> node list \<Rightarrow>
       go_int \<Rightarrow> go_int \<Rightarrow> go_int \<Rightarrow> go_int \<Rightarrow> world \<Rightarrow> world option" where
  "hsplit_MoveResize child_MoveResize rnd [] nextx y width height wd = Some wd"
| "hsplit_MoveResize child_MoveResize rnd (c # cs) nextx y width height wd =
     (let w = portion rnd (Proportion wd c) width
      in case child_MoveResize c nextx y w height wd of
           None \<Rightarrow> None
         | Some wd' \<Rightarrow> hsplit_MoveResize child_MoveResize rnd cs (nextx + w) y width height wd')"

primrec vsplit_MoveResize ::
    "mover \<Rightarrow> (float64 \<Rightarrow> go_int) \<Rightarrow> node list \<Rightarrow>
       go_int \<Rightarrow> go_int \<Rightarrow> go_int \<Rightarrow> go_int \<Rightarrow> world \<Rightarrow> world option" where
  "vsplit_MoveResize child_MoveResize rnd [] x nexty width height wd = Some wd"
| "vsplit_MoveResize child_MoveResize rnd (c # cs) x nexty width height wd =
     (let h = portion rnd (Proportion wd c) height
      in case child_MoveResize c x nexty width h wd of
           None \<Rightarrow> None
         | Some wd' \<Rightarrow> vsplit_MoveResize child_MoveResize rnd cs x (nexty + h) width height wd')"

primrec MoveResize :: "nat \<Rightarrow> (float64 \<Rightarrow> go_int) \<Rightarrow> mover" where
  "MoveResize 0 rnd n x y width height wd =
     (case n of
        LeafRef a \<Rightarrow> Some (leaf_MoveResize a x y width height wd)
      | SplitRef a \<Rightarrow> None)"
| "MoveResize (Suc k) rnd n x y width height wd =
     (case n of
        LeafRef a \<Rightarrow> Some (leaf_MoveResize a x y width height wd)
      | SplitRef a \<Rightarrow>
          (case kind (splits wd a) of
             HSplit \<Rightarrow>
               hsplit_MoveResize (MoveResize k rnd) rnd (children (splits wd a)) x y width height wd
           | VSplit \<Rightarrow>
               vsplit_MoveResize (MoveResize k rnd) rnd (children (splits wd a)) x y width height wd))"

section \<open>The tree\<close>

definition place :: "(float64 \<Rightarrow> go_int) \<Rightarrow> nat \<Rightarrow> tree \<Rightarrow> rect \<Rightarrow> world \<Rightarrow> world option" where
  "place rnd k t geom wd =
     (case child t of
        None \<Rightarrow> Some wd
      | Some r \<Rightarrow>
          (let x = X geom; y = Y geom; w = Width geom; h = Height geom
           in case ValidDims k rnd wd r w h 1 1 w h of
                None \<Rightarrow> None
              | Some ok \<Rightarrow> if \<not> ok then Some wd else MoveResize k rnd r x y w h wd))"

text \<open>The closure of \<^verbatim>\<open>findLeaf\<close>; its variable \<^verbatim>\<open>lf\<close> is the accumulator.\<close>

definition findLeaf_visit :: "world \<Rightarrow> Client \<Rightarrow> addr \<Rightarrow> addr option \<Rightarrow> bool \<times> addr option" where
  "findLeaf_visit w c visit lf =
     (if client (leaves w visit) = c then (False, Some visit) else (True, lf))"

definition findLeaf :: "nat \<Rightarrow> tree \<Rightarrow> Client \<Rightarrow> world \<Rightarrow> addr option option" where
  "findLeaf k t c w =
     (case child t of
        None \<Rightarrow> Some None
      | Some r \<Rightarrow>
          (case VisitLeafNodes k w r (findLeaf_visit w c) None of
             None \<Rightarrow> None
           | Some (continue, lf) \<Rightarrow> Some lf))"

definition set_client :: "addr \<Rightarrow> Client \<Rightarrow> world \<Rightarrow> world" where
  "set_client a c w = w\<lparr>leaves := (leaves w)(a := (leaves w a)\<lparr>client := c\<rparr>)\<rparr>"

definition switchClients :: "nat \<Rightarrow> tree \<Rightarrow> Client \<Rightarrow> Client \<Rightarrow> world \<Rightarrow> world option" where
  "switchClients k t c1 c2 w =
     (case findLeaf k t c1 w of
        None \<Rightarrow> None
      | Some lf1 \<Rightarrow>
          (case findLeaf k t c2 w of
             None \<Rightarrow> None
           | Some lf2 \<Rightarrow>
               (case (lf1, lf2) of
                  (Some l1, Some l2) \<Rightarrow>
                    (let v1 = client (leaves w l2); v2 = client (leaves w l1)
                     in Some (set_client l2 v2 (set_client l1 v1 w)))
                | _ \<Rightarrow> Some w)))"

section \<open>Notions used to state the properties\<close>

text \<open>
  The leaves below a node in depth-first order, each split listing its children in
  the order of its child sequence.  The sequence is defined when the fuel \<open>k\<close> reaches
  every leaf below the node, which makes \<open>leaf_seq k w n = Some ls\<close> the statement that
  the tree below \<open>n\<close> is finite, of depth at most \<open>k\<close>, with the leaves \<open>ls\<close>.
\<close>

primrec split_leaf_seq :: "(node \<Rightarrow> addr list option) \<Rightarrow> node list \<Rightarrow> addr list option" where
  "split_leaf_seq child_leaf_seq [] = Some []"
| "split_leaf_seq child_leaf_seq (c # cs) =
     (case child_leaf_seq c of
        None \<Rightarrow> None
      | Some ls \<Rightarrow>
          (case split_leaf_seq child_leaf_seq cs of
             None \<Rightarrow> None
           | Some ls' \<Rightarrow> Some (ls @ ls')))"

primrec leaf_seq :: "nat \<Rightarrow> world \<Rightarrow> node \<Rightarrow> addr list option" where
  "leaf_seq 0 w n = (case n of LeafRef a \<Rightarrow> Some [a] | SplitRef a \<Rightarrow> None)"
| "leaf_seq (Suc k) w n =
     (case n of
        LeafRef a \<Rightarrow> Some [a]
      | SplitRef a \<Rightarrow> split_leaf_seq (leaf_seq k w) (children (splits w a)))"

text \<open>
  A visitor run over a sequence of leaves in order, up to and including the first leaf
  at which it answers false.
\<close>

primrec visit_seq :: "(addr \<Rightarrow> 'a \<Rightarrow> bool \<times> 'a) \<Rightarrow> addr list \<Rightarrow> 'a \<Rightarrow> bool \<times> 'a" where
  "visit_seq f [] acc = (True, acc)"
| "visit_seq f (a # as) acc =
     (case f a acc of (continue, acc') \<Rightarrow>
        if \<not> continue then (False, acc') else visit_seq f as acc')"

text \<open>A step that leaves both heaps as they are and only adds calls on clients.\<close>

definition only_calls :: "world \<Rightarrow> world \<Rightarrow> bool" where
  "only_calls wd wd' \<longleftrightarrow>
     splits wd' = splits wd \<and> leaves wd' = leaves wd \<and> (\<exists>cs. calls wd' = calls wd @ cs)"




text \<open>The world that \<^verbatim>\<open>addNode\<close> has built when it reaches its final check.\<close>

definition addNode_world :: "addr \<Rightarrow> node \<Rightarrow> bool \<Rightarrow> world \<Rightarrow> world" where
  "addNode_world s n last' w =
     (let cs = children (splits w s);
          newProp = fdiv fullPortion (float_of_len (length cs + 1));
          w1 = (if cs = [] then w else chop_children (fdiv newProp (float_of_len (length cs))) cs w)
      in set_children s (if last' then cs @ [n] else n # cs) (SetProportion n newProp w1))"

text \<open>
  The world that \<^verbatim>\<open>removeNode\<close> has built from the child sequence \<open>cs\<close> that its
  removal loop leaves, when it returns or reaches its final check.
\<close>

definition removeNode_world :: "addr \<Rightarrow> node \<Rightarrow> node list \<Rightarrow> world \<Rightarrow> world" where
  "removeNode_world s n cs w =
     (if cs = [] then set_children s cs w
      else grow_children (fdiv (Proportion w n) (float_of_len (length cs))) cs (set_children s cs w))"

text \<open>Rounding to the nearest integer, halves away from zero.\<close>

definition round_half_away :: "real \<Rightarrow> int" where
  "round_half_away x = (if 0 \<le> x then \<lfloor>x + 1 / 2\<rfloor> else \<lceil>x - 1 / 2\<rceil>)"

text \<open>
  Modelled from the spec: \<^verbatim>\<open>misc.Round\<close> belongs to a package of the repository that is
  not among the sources at hand.  The specification has it round to the nearest
  integer, halves away from zero.  It says nothing about an argument that is not
  finite; zero stands for the result there, and no statement below depends on that
  choice.
\<close>

fun Round :: "float64 \<Rightarrow> go_int" where
  "Round (Finite x) = word_of_int (round_half_away x)"
| "Round x = 0"

section \<open>Example worlds\<close>

text \<open>
  \<open>world0\<close>: every split is a new, empty horizontal split and the leaf at address
  \<open>a\<close> is a new leaf of client \<open>a\<close>; nothing has a parent and no call was made.
\<close>

definition world0 :: world where
  "world0 = \<lparr>splits = (\<lambda>a. newHSplit None), leaves = (\<lambda>a. newLeaf None a), calls = []\<rparr>"

text \<open>\<open>world1\<close>: the split 0 of \<open>world0\<close> after leaf 1 was added to it.\<close>

definition world1 :: world where
  "world1 = set_children 0 [LeafRef 1] (SetProportion (LeafRef 1) fullPortion world0)"

text \<open>
  \<open>world2\<close>: the horizontal split 0 holds the leaves 1 and 2, one half each, and the
  leaves point back to it.
\<close>

definition world2 :: world where
  "world2 =
     \<lparr>splits = (\<lambda>a. newHSplit None)
                 (0 := (newHSplit None)\<lparr>children := [LeafRef 1, LeafRef 2]\<rparr>),
      leaves = (\<lambda>a. (newLeaf (Some (SplitRef 0)) a)\<lparr>prop' := Finite (1 / 2)\<rparr>),
      calls = []\<rparr>"

text \<open>\<open>world2r\<close>: \<open>world2\<close> after leaf 2 was removed from the split 0.\<close>

definition world2r :: world where
  "world2r = SetProportion (LeafRef 1) fullPortion (set_children 0 [LeafRef 1] world2)"

text \<open>
  \<open>world3\<close>: the horizontal split 0 holds the leaves 1, 2 and 3, each with the
  proportion \<^verbatim>\<open>fullPortion / 3\<close>.
\<close>

definition world3 :: world where
  "world3 =
     \<lparr>splits = (\<lambda>a. newHSplit None)
                 (0 := (newHSplit None)\<lparr>children := [LeafRef 1, LeafRef 2, LeafRef 3]\<rparr>),
      leaves = (\<lambda>a. (newLeaf (Some (SplitRef 0)) a)\<lparr>prop' := fdiv fullPortion (float_of_len 3)\<rparr>),
      calls = []\<rparr>"


definition tree0 :: tree where
  "tree0 = setChild (Some (SplitRef 0)) newTree"




section \<open>Rounding, taken apart\<close>



section \<open>Basic facts\<close>

text \<open>Unfolding these evaluates the arithmetic of a concrete float64.\<close>

lemmas float_eval =
  round64_def ilog2_def rne_def Let_def compute_bitlen power_int_minus
  fullPortion_def epsilon_def float_of_len_def float_of_int_def equal_def fsub_def

lemma fullPortion_eq: "fullPortion = Finite 1"
  by (simp add: float_eval)


lemma first_child_arith:
  "fdiv fullPortion (float_of_len (Suc 0)) = fullPortion"
  "equal (fadd (Finite 0) fullPortion) fullPortion"
  by (simp_all add: float_eval)

lemma Parent_SetProportion: "Parent (SetProportion c p w) m = Parent w m"
  by (cases c; cases m) simp_all

lemma children_SetProportion: "children (splits (SetProportion c p w) s) = children (splits w s)"
  by (cases c) simp_all

lemma Parent_chop_children: "Parent (chop_children chop cs w) m = Parent w m"
  unfolding chop_children_def by (induction cs arbitrary: w) (simp_all add: Parent_SetProportion)

lemma children_chop_children:
  "children (splits (chop_children chop cs w) s) = children (splits w s)"
  unfolding chop_children_def by (induction cs arbitrary: w) (simp_all add: children_SetProportion)

lemma children_grow_children:
  "children (splits (grow_children l cs w) s) = children (splits w s)"
  unfolding grow_children_def by (induction cs arbitrary: w) (simp_all add: children_SetProportion)

lemma Parent_set_children: "Parent (set_children s cs w) m = Parent w m"
  by (cases m) (simp_all add: set_children_def)

lemma children_set_children: "children (splits (set_children s cs w) s) = cs"
  by (simp add: set_children_def)

lemma Proportion_set_children: "Proportion (set_children s cs w) m = Proportion w m"
  by (cases m) (simp_all add: set_children_def)

lemma Proportion_SetProportion:
  "Proportion (SetProportion c p w) m = (if m = c then p else Proportion w m)"
  by (cases c; cases m) simp_all

lemma checkPortions_Inr:
  "checkPortions w s = Inr u \<longleftrightarrow>
     children (splits w s) = [] \<or> equal (sum_portions w (children (splits w s))) fullPortion"
  by (simp add: checkPortions_def)

lemma addNode_Inr:
  assumes "addNode s n last' w = Inr w'"
  shows "w' = addNode_world s n last' w" and "checkPortions w' s = Inr ()"
  using assms
  by (auto simp: addNode_def addNode_world_def Let_def children_SetProportion children_chop_children
      split: sum.splits if_splits)

lemma addNode_Inr_iff:
  "addNode s n last' w = Inr w' \<longleftrightarrow>
     w' = addNode_world s n last' w \<and> checkPortions (addNode_world s n last' w) s = Inr ()"
  by (auto simp: addNode_def addNode_world_def Let_def children_SetProportion children_chop_children
      split: sum.splits if_splits)


lemma addNode_Parent:
  assumes "addNode s n last' w = Inr w'"
  shows "Parent w' m = Parent w m"
  by (subst addNode_Inr(1)[OF assms])
     (simp add: addNode_world_def Let_def Parent_set_children Parent_SetProportion Parent_chop_children)

lemma removeNode_Inr:
  assumes "removeNode s n w = Inr w'"
  obtains arr len where
    "remove_loop n (length (children (splits w s))) 0 (children (splits w s))
       (length (children (splits w s))) False = Inr (arr, len, True)"
    "w' = removeNode_world s n (take len arr) w"
    "children (splits w' s) = take len arr"
    "take len arr \<noteq> [] \<Longrightarrow> checkPortions w' s = Inr ()"
proof -
  let ?loop = "remove_loop n (length (children (splits w s))) 0 (children (splits w s))
       (length (children (splits w s))) False"
  from assms obtain r where r: "?loop = Inr r"
    by (cases ?loop) (simp_all add: removeNode_def)
  obtain arr len removed where r': "r = (arr, len, removed)"
    by (cases r)
  define cs' where "cs' = take len arr"
  have removed: "removed"
    using assms r r' by (simp add: removeNode_def split: if_splits)
  have w': "w' = removeNode_world s n cs' w \<and> (cs' \<noteq> [] \<longrightarrow> checkPortions w' s = Inr ())"
    using assms r r' removed
    by (auto simp: removeNode_def removeNode_world_def Let_def cs'_def[symmetric]
        children_set_children Proportion_set_children split: sum.splits if_splits)
  have ch: "children (splits w' s) = cs'"
    using w' by (simp add: removeNode_world_def children_set_children children_grow_children)
  show thesis
  proof (rule that[of arr len])
    show "?loop = Inr (arr, len, True)"
      using r r' removed by simp
    show "w' = removeNode_world s n (take len arr) w"
      using w' unfolding cs'_def by blast
    show "children (splits w' s) = take len arr"
      using ch unfolding cs'_def .
    show "checkPortions w' s = Inr ()" if "take len arr \<noteq> []"
      using w' that unfolding cs'_def by blast
  qed
qed

lemma removeNode_Inr_check:
  assumes "removeNode s n w = Inr w'" and "children (splits w' s) \<noteq> []"
  shows "checkPortions w' s = Inr ()"
  using removeNode_Inr[OF assms(1)] assms(2) by metis


lemma addNode_empty:
  assumes "children (splits w s) = []"
  shows "addNode s n last' w = Inr (set_children s [n] (SetProportion n fullPortion w))"
  using assms
  by (simp add: addNode_Inr_iff addNode_world_def first_child_arith checkPortions_def
      children_set_children sum_portions_def Proportion_set_children Proportion_SetProportion)

lemma visit_seq_append:
  "visit_seq f (xs @ ys) acc =
     (case visit_seq f xs acc of (continue, acc') \<Rightarrow>
        if \<not> continue then (False, acc') else visit_seq f ys acc')"
  by (induction xs arbitrary: acc) (auto split: prod.splits)

lemma split_VisitLeafNodes_seq:
  assumes "\<And>c ls f acc. c \<in> set cs \<Longrightarrow> sq c = Some ls \<Longrightarrow> visit c f acc = Some (visit_seq f ls acc)"
    and "split_leaf_seq sq cs = Some ls"
  shows "split_VisitLeafNodes visit cs f acc = Some (visit_seq f ls acc)"
  using assms
proof (induction cs arbitrary: ls acc)
  case Nil
  then show ?case by simp
next
  case (Cons c cs)
  from Cons.prems(2) obtain l1 l2 where
    l: "sq c = Some l1" "split_leaf_seq sq cs = Some l2" "ls = l1 @ l2"
    by (auto split: option.splits)
  have v: "visit c f acc = Some (visit_seq f l1 acc)"
    using Cons.prems(1) l(1) by simp
  have r: "split_VisitLeafNodes visit cs f acc' = Some (visit_seq f l2 acc')" for acc'
    using Cons.IH[OF _ l(2)] Cons.prems(1) by simp
  show ?case
    by (cases "visit_seq f l1 acc") (simp add: v r l(3) visit_seq_append)
qed

lemma VisitLeafNodes_seq:
  "leaf_seq k w n = Some ls \<Longrightarrow> VisitLeafNodes k w n f acc = Some (visit_seq f ls acc)"
proof (induction k arbitrary: n ls f acc)
  case 0
  then show ?case by (cases n) (auto split: prod.splits)
next
  case (Suc k)
  show ?case
  proof (cases n)
    case (LeafRef a)
    with Suc.prems show ?thesis by (auto split: prod.splits)
  next
    case (SplitRef a)
    with Suc.prems have "split_leaf_seq (leaf_seq k w) (children (splits w a)) = Some ls"
      by simp
    then have "split_VisitLeafNodes (VisitLeafNodes k w) (children (splits w a)) f acc
                 = Some (visit_seq f ls acc)"
      by (rule split_VisitLeafNodes_seq[rotated]) (rule Suc.IH)
    with SplitRef show ?thesis by simp
  qed
qed

lemma visit_seq_findLeaf:
  "visit_seq (findLeaf_visit w c) ls acc =
     (case find (\<lambda>a. client (leaves w a) = c) ls of
        None \<Rightarrow> (True, acc)
      | Some a \<Rightarrow> (False, Some a))"
  by (induction ls arbitrary: acc) (simp_all add: findLeaf_visit_def)

lemma findLeaf_seq:
  assumes "child t = Some r" and "leaf_seq k w r = Some ls"
  shows "findLeaf k t c w = Some (find (\<lambda>a. client (leaves w a) = c) ls)"
  using assms
  by (simp add: findLeaf_def VisitLeafNodes_seq visit_seq_findLeaf split: option.splits)

lemma findLeaf_empty: "child t = None \<Longrightarrow> findLeaf k t c w = Some None"
  by (simp add: findLeaf_def)

lemma split_leaf_seq_mono:
  assumes "\<And>c ls. c \<in> set cs \<Longrightarrow> f c = Some ls \<Longrightarrow> g c = Some ls"
    and "split_leaf_seq f cs = Some ls"
  shows "split_leaf_seq g cs = Some ls"
  using assms by (induction cs arbitrary: ls) (auto split: option.splits)

text \<open>More fuel gives the same sequence of leaves, and the calls do not change it.\<close>

lemma leaf_seq_Suc: "leaf_seq k w n = Some ls \<Longrightarrow> leaf_seq (Suc k) w n = Some ls"
proof (induction k arbitrary: n ls)
  case 0
  then show ?case by (cases n) simp_all
next
  case (Suc k)
  show ?case
  proof (cases n)
    case (LeafRef a)
    with Suc.prems show ?thesis by simp
  next
    case (SplitRef a)
    with Suc.prems have "split_leaf_seq (leaf_seq k w) (children (splits w a)) = Some ls"
      by simp
    then have "split_leaf_seq (leaf_seq (Suc k) w) (children (splits w a)) = Some ls"
      by (rule split_leaf_seq_mono[rotated]) (rule Suc.IH)
    with SplitRef show ?thesis by simp
  qed
qed

lemma leaf_seq_more_fuel: "leaf_seq k w n = Some ls \<Longrightarrow> leaf_seq (k + j) w n = Some ls"
proof (induction j)
  case 0
  then show ?case by simp
next
  case (Suc j)
  then have "leaf_seq (Suc (k + j)) w n = Some ls"
    by (intro leaf_seq_Suc) simp
  then show ?case by (simp only: add_Suc_right)
qed

lemma leaf_seq_splits: "splits w' = splits w \<Longrightarrow> leaf_seq k w' n = leaf_seq k w n"
proof (induction k arbitrary: n)
  case 0
  then show ?case by simp
next
  case (Suc k)
  then have "leaf_seq k w' = leaf_seq k w" by blast
  with Suc.prems show ?case by (cases n) simp_all
qed

lemma split_leaf_seq_child:
  "split_leaf_seq sq cs = Some ls \<Longrightarrow> c \<in> set cs \<Longrightarrow> \<exists>l. sq c = Some l"
  by (induction cs arbitrary: ls) (auto split: option.splits)

lemma hsplit_ValidDims_total:
  assumes "\<And>c w h. c \<in> set cs \<Longrightarrow> \<exists>b. vd c w h minw minh maxw maxh = Some b"
  shows "\<exists>b. hsplit_ValidDims vd rnd wd cs w h minw minh maxw maxh = Some b"
  using assms
proof (induction cs)
  case Nil
  show ?case by (rule exI[of _ True]) simp
next
  case (Cons c cs)
  obtain b where "vd c (portion rnd (Proportion wd c) w) h minw minh maxw maxh = Some b"
    using Cons.prems[OF list.set_intros(1)] by blast
  moreover obtain b' where "hsplit_ValidDims vd rnd wd cs w h minw minh maxw maxh = Some b'"
    using Cons.IH Cons.prems by (meson list.set_intros(2))
  ultimately show ?case by (cases b) (auto simp: Let_def)
qed

lemma vsplit_ValidDims_total:
  assumes "\<And>c w h. c \<in> set cs \<Longrightarrow> \<exists>b. vd c w h minw minh maxw maxh = Some b"
  shows "\<exists>b. vsplit_ValidDims vd rnd wd cs w h minw minh maxw maxh = Some b"
  using assms
proof (induction cs)
  case Nil
  show ?case by (rule exI[of _ True]) simp
next
  case (Cons c cs)
  obtain b where "vd c w (portion rnd (Proportion wd c) h) minw minh maxw maxh = Some b"
    using Cons.prems[OF list.set_intros(1)] by blast
  moreover obtain b' where "vsplit_ValidDims vd rnd wd cs w h minw minh maxw maxh = Some b'"
    using Cons.IH Cons.prems by (meson list.set_intros(2))
  ultimately show ?case by (cases b) (auto simp: Let_def)
qed

lemma ValidDims_total:
  "leaf_seq k wd n = Some ls \<Longrightarrow> \<exists>b. ValidDims k rnd wd n w h minw minh maxw maxh = Some b"
proof (induction k arbitrary: n ls w h)
  case 0
  then show ?case by (cases n) simp_all
next
  case (Suc k)
  show ?case
  proof (cases n)
    case (LeafRef a)
    then show ?thesis by simp
  next
    case (SplitRef a)
    with Suc.prems have sq: "split_leaf_seq (leaf_seq k wd) (children (splits wd a)) = Some ls"
      by simp
    have ch: "\<exists>b. ValidDims k rnd wd c w h minw minh maxw maxh = Some b"
      if "c \<in> set (children (splits wd a))" for c w h
      using split_leaf_seq_child[OF sq that] Suc.IH by blast
    show ?thesis
      using SplitRef hsplit_ValidDims_total[of "children (splits wd a)" "ValidDims k rnd wd", OF ch]
        vsplit_ValidDims_total[of "children (splits wd a)" "ValidDims k rnd wd", OF ch]
      by (cases "kind (splits wd a)") simp_all
  qed
qed

lemma only_calls_refl: "only_calls wd wd"
  by (simp add: only_calls_def)

lemma only_calls_trans: "only_calls a b \<Longrightarrow> only_calls b c \<Longrightarrow> only_calls a c"
  by (auto simp: only_calls_def)

lemma leaf_MoveResize_calls:
  "leaf_MoveResize a x y width height wd =
     wd\<lparr>calls := calls wd @ [CallFrameTile (client (leaves wd a)),
                            CallMoveResize (client (leaves wd a)) x y width height]\<rparr>"
  by (simp add: leaf_MoveResize_def)

lemma only_calls_leaf: "only_calls wd (leaf_MoveResize a x y width height wd)"
  by (simp add: leaf_MoveResize_calls only_calls_def)

lemma hsplit_MoveResize_only_calls:
  assumes "\<And>c x y w h wd wd'. c \<in> set cs \<Longrightarrow> mv c x y w h wd = Some wd' \<Longrightarrow> only_calls wd wd'"
    and "hsplit_MoveResize mv rnd cs x y width height wd = Some wd'"
  shows "only_calls wd wd'"
  using assms
proof (induction cs arbitrary: x wd)
  case Nil
  then show ?case by (simp add: only_calls_refl)
next
  case (Cons c cs)
  from Cons.prems(2) obtain wd1 where
    1: "mv c x y (portion rnd (Proportion wd c) width) height wd = Some wd1" and
    2: "hsplit_MoveResize mv rnd cs (x + portion rnd (Proportion wd c) width) y width height wd1 = Some wd'"
    by (auto simp: Let_def split: option.splits)
  have "only_calls wd wd1" by (rule Cons.prems(1)[OF list.set_intros(1) 1])
  moreover have "only_calls wd1 wd'" using Cons.IH[OF _ 2] Cons.prems(1) by (meson list.set_intros(2))
  ultimately show ?case by (rule only_calls_trans)
qed

lemma vsplit_MoveResize_only_calls:
  assumes "\<And>c x y w h wd wd'. c \<in> set cs \<Longrightarrow> mv c x y w h wd = Some wd' \<Longrightarrow> only_calls wd wd'"
    and "vsplit_MoveResize mv rnd cs x y width height wd = Some wd'"
  shows "only_calls wd wd'"
  using assms
proof (induction cs arbitrary: y wd)
  case Nil
  then show ?case by (simp add: only_calls_refl)
next
  case (Cons c cs)
  from Cons.prems(2) obtain wd1 where
    1: "mv c x y width (portion rnd (Proportion wd c) height) wd = Some wd1" and
    2: "vsplit_MoveResize mv rnd cs x (y + portion rnd (Proportion wd c) height) width height wd1 = Some wd'"
    by (auto simp: Let_def split: option.splits)
  have "only_calls wd wd1" by (rule Cons.prems(1)[OF list.set_intros(1) 1])
  moreover have "only_calls wd1 wd'" using Cons.IH[OF _ 2] Cons.prems(1) by (meson list.set_intros(2))
  ultimately show ?case by (rule only_calls_trans)
qed

lemma MoveResize_only_calls:
  "MoveResize k rnd n x y width height wd = Some wd' \<Longrightarrow> only_calls wd wd'"
proof (induction k arbitrary: n x y width height wd wd')
  case 0
  then show ?case by (cases n) (auto simp: only_calls_leaf)
next
  case (Suc k)
  show ?case
  proof (cases n)
    case (LeafRef a)
    with Suc.prems show ?thesis by (auto simp: only_calls_leaf)
  next
    case (SplitRef a)
    show ?thesis
    proof (cases "kind (splits wd a)")
      case HSplit
      with SplitRef Suc.prems have
        "hsplit_MoveResize (MoveResize k rnd) rnd (children (splits wd a)) x y width height wd = Some wd'"
        by simp
      then show ?thesis
        by (rule hsplit_MoveResize_only_calls[rotated]) (rule Suc.IH)
    next
      case VSplit
      with SplitRef Suc.prems have
        "vsplit_MoveResize (MoveResize k rnd) rnd (children (splits wd a)) x y width height wd = Some wd'"
        by simp
      then show ?thesis
        by (rule vsplit_MoveResize_only_calls[rotated]) (rule Suc.IH)
    qed
  qed
qed

lemma hsplit_MoveResize_total:
  assumes "\<And>c x y w h wd. c \<in> set cs \<Longrightarrow> splits wd = S \<Longrightarrow>
             \<exists>wd'. mv c x y w h wd = Some wd' \<and> splits wd' = S"
    and "splits wd = S"
  shows "\<exists>wd'. hsplit_MoveResize mv rnd cs x y width height wd = Some wd' \<and> splits wd' = S"
  using assms
proof (induction cs arbitrary: x wd)
  case Nil
  then show ?case by simp
next
  case (Cons c cs)
  obtain wd1 where 1: "mv c x y (portion rnd (Proportion wd c) width) height wd = Some wd1"
    and s1: "splits wd1 = S"
    using Cons.prems(1)[OF list.set_intros(1) Cons.prems(2)] by blast
  obtain wd' where
    "hsplit_MoveResize mv rnd cs (x + portion rnd (Proportion wd c) width) y width height wd1 = Some wd'"
    "splits wd' = S"
    using Cons.IH[OF _ s1] Cons.prems(1) by (metis list.set_intros(2))
  with 1 show ?case by (simp add: Let_def)
qed

lemma vsplit_MoveResize_total:
  assumes "\<And>c x y w h wd. c \<in> set cs \<Longrightarrow> splits wd = S \<Longrightarrow>
             \<exists>wd'. mv c x y w h wd = Some wd' \<and> splits wd' = S"
    and "splits wd = S"
  shows "\<exists>wd'. vsplit_MoveResize mv rnd cs x y width height wd = Some wd' \<and> splits wd' = S"
  using assms
proof (induction cs arbitrary: y wd)
  case Nil
  then show ?case by simp
next
  case (Cons c cs)
  obtain wd1 where 1: "mv c x y width (portion rnd (Proportion wd c) height) wd = Some wd1"
    and s1: "splits wd1 = S"
    using Cons.prems(1)[OF list.set_intros(1) Cons.prems(2)] by blast
  obtain wd' where
    "vsplit_MoveResize mv rnd cs x (y + portion rnd (Proportion wd c) height) width height wd1 = Some wd'"
    "splits wd' = S"
    using Cons.IH[OF _ s1] Cons.prems(1) by (metis list.set_intros(2))
  with 1 show ?case by (simp add: Let_def)
qed

lemma MoveResize_total:
  "leaf_seq k wd0 n = Some ls \<Longrightarrow> splits wd = splits wd0 \<Longrightarrow>
     \<exists>wd'. MoveResize k rnd n x y width height wd = Some wd' \<and> splits wd' = splits wd0"
proof (induction k arbitrary: n ls x y width height wd)
  case 0
  then show ?case by (cases n) (simp_all add: leaf_MoveResize_calls)
next
  case (Suc k)
  show ?case
  proof (cases n)
    case (LeafRef a)
    with Suc.prems show ?thesis by (simp add: leaf_MoveResize_calls)
  next
    case (SplitRef a)
    with Suc.prems have sq: "split_leaf_seq (leaf_seq k wd0) (children (splits wd0 a)) = Some ls"
      by simp
    have ch: "\<exists>wd'. MoveResize k rnd c x y w h wd = Some wd' \<and> splits wd' = splits wd0"
      if "c \<in> set (children (splits wd0 a))" "splits wd = splits wd0" for c x y w h wd
      using split_leaf_seq_child[OF sq that(1)] Suc.IH that(2) by blast
    show ?thesis
      using SplitRef Suc.prems(2)
        hsplit_MoveResize_total[of "children (splits wd0 a)" "splits wd0" "MoveResize k rnd", OF ch Suc.prems(2)]
        vsplit_MoveResize_total[of "children (splits wd0 a)" "splits wd0" "MoveResize k rnd", OF ch Suc.prems(2)]
      by (cases "kind (splits wd0 a)") simp_all
  qed
qed

lemma place_cases:
  "child t = None \<Longrightarrow> place rnd k t geom wd = Some wd"
  "child t = Some r \<Longrightarrow>
     ValidDims k rnd wd r (Width geom) (Height geom) 1 1 (Width geom) (Height geom) = Some False \<Longrightarrow>
     place rnd k t geom wd = Some wd"
  "child t = Some r \<Longrightarrow>
     ValidDims k rnd wd r (Width geom) (Height geom) 1 1 (Width geom) (Height geom) = Some True \<Longrightarrow>
     place rnd k t geom wd = MoveResize k rnd r (X geom) (Y geom) (Width geom) (Height geom) wd"
  by (simp_all add: place_def)

lemma place_only_calls:
  assumes "place rnd k t geom wd = Some wd'"
  shows "only_calls wd wd'"
  using assms
  by (auto simp: place_def Let_def only_calls_refl MoveResize_only_calls
      split: option.splits if_splits)

lemma place_total:
  assumes "child t = Some r" and "leaf_seq k wd r = Some ls"
  shows "\<exists>wd'. place rnd k t geom wd = Some wd'"
proof -
  obtain b where b: "ValidDims k rnd wd r (Width geom) (Height geom) 1 1 (Width geom) (Height geom) = Some b"
    using ValidDims_total[OF assms(2)] by blast
  obtain wd' where "MoveResize k rnd r (X geom) (Y geom) (Width geom) (Height geom) wd = Some wd'"
    using MoveResize_total[OF assms(2) refl] by blast
  with assms(1) b show ?thesis
    by (cases b) (simp_all add: place_def)
qed

lemma switchClients_absent:
  assumes "findLeaf k t c1 w = Some lf1" and "findLeaf k t c2 w = Some lf2"
    and "lf1 = None \<or> lf2 = None"
  shows "switchClients k t c1 c2 w = Some w"
  using assms by (auto simp: switchClients_def split: option.splits)

lemma switchClients_present:
  assumes "findLeaf k t c1 w = Some (Some l1)" and "findLeaf k t c2 w = Some (Some l2)"
  shows "\<exists>w'. switchClients k t c1 c2 w = Some w' \<and>
           splits w' = splits w \<and> calls w' = calls w \<and>
           client (leaves w' l1) = client (leaves w l2) \<and>
           client (leaves w' l2) = client (leaves w l1) \<and>
           (\<forall>a. leaf.parent (leaves w' a) = leaf.parent (leaves w a) \<and>
                leaf.prop' (leaves w' a) = leaf.prop' (leaves w a) \<and>
                (a \<noteq> l1 \<and> a \<noteq> l2 \<longrightarrow> leaves w' a = leaves w a))"
  using assms by (auto simp: switchClients_def set_client_def Let_def)

section \<open>The example worlds, evaluated\<close>

lemmas world_eval =
  world0_def world1_def world2_def world3_def tree0_def newLeaf_def newHSplit_def newTree_def
  setChild_def set_children_def

lemma addNode_world0: "addNode 0 (LeafRef 1) True world0 = Inr world1"
  unfolding world1_def by (rule addNode_empty) (simp add: world_eval)

lemma removeNode_world1: "removeNode 0 (LeafRef 1) world1 = Inr (set_children 0 [] world1)"
  by (simp add: removeNode_def world_eval fullPortion_eq)

lemma removeNode_world2: "removeNode 0 (LeafRef 2) world2 = Inr world2r"
  unfolding world2r_def
  by (simp add: removeNode_def world_eval grow_children_def checkPortions_def sum_portions_def float_eval)

section \<open>Properties of the split containers\<close>

text \<open>
  C1.  When \<^verbatim>\<open>addNode\<close> or \<^verbatim>\<open>removeNode\<close> on the split \<open>s\<close> returns without a panic
  and \<open>s\<close> has a child afterwards, the proportions of the children of \<open>s\<close>, summed
  in order as \<^verbatim>\<open>checkPortions\<close> does, are within \<open>epsilon\<close> of \<open>fullPortion\<close>.  After
  \<^verbatim>\<open>addNode\<close> the split always has a child (\<open>addNode_children\<close>).
\<close>

theorem portions_sum_after_mutation:
  assumes "addNode s n last' w = Inr w' \<or> removeNode s n w = Inr w'"
    and "children (splits w' s) \<noteq> []"
  shows "equal (sum_portions w' (children (splits w' s))) fullPortion"
proof -
  from assms have "checkPortions w' s = Inr ()"
    using addNode_Inr(2) removeNode_Inr_check by blast
  with assms(2) show ?thesis by (simp add: checkPortions_Inr)
qed

text \<open>
  Two instances: adding the first leaf to an empty split, and removing one of two
  leaves.
\<close>

theorem portions_sum_after_mutation_witness:
  "addNode 0 (LeafRef 1) True world0 = Inr world1 \<and>
   children (splits world1 0) \<noteq> [] \<and>
   equal (sum_portions world1 (children (splits world1 0))) fullPortion \<and>
   removeNode 0 (LeafRef 2) world2 = Inr world2r \<and>
   children (splits world2r 0) \<noteq> [] \<and>
   equal (sum_portions world2r (children (splits world2r 0))) fullPortion"
proof -
  have c: "children (splits world1 0) \<noteq> []"
    by (simp add: world_eval)
  have d: "children (splits world2r 0) \<noteq> []"
    by (simp add: world2r_def children_SetProportion children_set_children)
  from portions_sum_after_mutation[OF disjI1[OF addNode_world0] c]
    portions_sum_after_mutation[OF disjI2[OF removeNode_world2] d]
    addNode_world0 removeNode_world2 c d
  show ?thesis by blast
qed

text \<open>
  Without the condition the property fails: removing the only child returns without a
  panic and leaves no child, and the empty sum is 0.
\<close>

theorem portions_sum_empty_counterexample:
  "removeNode 0 (LeafRef 1) world1 = Inr (set_children 0 [] world1) \<and>
   \<not> equal (sum_portions (set_children 0 [] world1)
              (children (splits (set_children 0 [] world1) 0))) fullPortion"
proof (rule conjI)
  show "removeNode 0 (LeafRef 1) world1 = Inr (set_children 0 [] world1)"
    by (rule removeNode_world1)
  show "\<not> equal (sum_portions (set_children 0 [] world1)
              (children (splits (set_children 0 [] world1) 0))) fullPortion"
    by (simp add: children_set_children sum_portions_def float_eval)
qed

text \<open>
  C2.  \<^verbatim>\<open>addNode\<close> does not call \<^verbatim>\<open>SetParent\<close>: when it returns, the parent link of every
  node, the inserted one included, is what it was before the call.
\<close>

theorem addNode_parent_unchanged:
  assumes "addNode s n last' w = Inr w'"
  shows "Parent w' m = Parent w m"
  using assms by (rule addNode_Parent)

text \<open>An instance: the first leaf added to an empty split.\<close>

theorem addNode_parent_unchanged_witness:
  "addNode 0 (LeafRef 1) True world0 = Inr world1 \<and>
   Parent world1 (LeafRef 1) = Parent world0 (LeafRef 1)"
  using addNode_parent_unchanged[OF addNode_world0, of "LeafRef 1"] addNode_world0 by simp

text \<open>
  The leaf 1 of \<open>world0\<close> has no parent; after it was added to the split 0 its parent
  link does not refer to that split.
\<close>

theorem addNode_reparent_counterexample:
  "addNode 0 (LeafRef 1) True world0 = Inr world1 \<and>
   Parent world1 (LeafRef 1) \<noteq> Some (SplitRef 0)"
proof (rule conjI)
  show "addNode 0 (LeafRef 1) True world0 = Inr world1"
    by (rule addNode_world0)
  show "Parent world1 (LeafRef 1) \<noteq> Some (SplitRef 0)"
    by (simp add: world_eval)
qed

text \<open>
  C5.  \<^verbatim>\<open>addNode\<close> on a split without children returns without a panic; the node added
  is the only child, its proportion is \<open>fullPortion\<close>, which is exactly 1, and the
  proportion of every other node is what it was.
\<close>

theorem addNode_first_child:
  assumes "children (splits w s) = []"
  shows "\<exists>w'. addNode s n last' w = Inr w' \<and>
           Proportion w' n = fullPortion \<and> fullPortion = Finite 1 \<and>
           children (splits w' s) = [n] \<and>
           (\<forall>m. m \<noteq> n \<longrightarrow> Proportion w' m = Proportion w m)"
  using addNode_empty[OF assms, of n last']
  by (simp add: Proportion_set_children Proportion_SetProportion children_set_children
      fullPortion_eq)

text \<open>An instance: leaf 1 added to the empty split 0; leaf 2 keeps its proportion.\<close>

theorem addNode_first_child_witness:
  "children (splits world0 0) = [] \<and>
   (\<exists>w'. addNode 0 (LeafRef 1) True world0 = Inr w' \<and>
      Proportion w' (LeafRef 1) = Finite 1 \<and>
      Proportion w' (LeafRef 2) = Proportion world0 (LeafRef 2))"
proof -
  have e: "children (splits world0 0) = []"
    by (simp add: world_eval)
  from addNode_first_child[OF e, of "LeafRef 1" True] obtain w' where
    a: "addNode 0 (LeafRef 1) True world0 = Inr w'" and
    p: "Proportion w' (LeafRef 1) = fullPortion" "fullPortion = Finite 1" and
    o: "\<forall>m. m \<noteq> LeafRef 1 \<longrightarrow> Proportion w' m = Proportion world0 m"
    by blast
  from o have "Proportion w' (LeafRef 2) = Proportion world0 (LeafRef 2)"
    by (rule allE[of _ "LeafRef 2"]) simp
  with e a p show ?thesis
    by (intro conjI exI[of _ w']) simp_all
qed

section \<open>Properties of placement\<close>

text \<open>
  C6.  \<^verbatim>\<open>leaf.MoveResize\<close> adds two calls on the client of the leaf to the calls made so
  far: \<^verbatim>\<open>FrameTile\<close> first, then \<^verbatim>\<open>MoveResize\<close> with the rectangle it was given; and
  this is what \<^verbatim>\<open>MoveResize\<close> through the \<^verbatim>\<open>node\<close> interface does on a leaf, at any fuel.
\<close>

theorem leaf_MoveResize_calls_in_order:
  "leaf_MoveResize a x y width height wd =
     wd\<lparr>calls := calls wd @ [CallFrameTile (client (leaves wd a)),
                            CallMoveResize (client (leaves wd a)) x y width height]\<rparr> \<and>
   MoveResize k rnd (LeafRef a) x y width height wd = Some (leaf_MoveResize a x y width height wd)"
  by (cases k) (simp_all add: leaf_MoveResize_calls)

text \<open>
  C3.  \<^verbatim>\<open>place\<close> returns the world as it is when the tree has no child.  Otherwise it
  runs \<^verbatim>\<open>ValidDims\<close> of the root on the width and height of the target with the
  bounds 1, 1 and that width and height; when the check fails it returns the world as
  it is, no call added; when the check succeeds it is \<^verbatim>\<open>MoveResize\<close> of the root on the
  target.  The check returns whenever the fuel reaches every leaf below the root.
\<close>

theorem place_checks_validity:
  "(child t = None \<longrightarrow> place rnd k t geom wd = Some wd) \<and>
   (\<forall>r. child t = Some r \<longrightarrow>
      (ValidDims k rnd wd r (Width geom) (Height geom) 1 1 (Width geom) (Height geom) = Some False
         \<longrightarrow> place rnd k t geom wd = Some wd) \<and>
      (ValidDims k rnd wd r (Width geom) (Height geom) 1 1 (Width geom) (Height geom) = Some True
         \<longrightarrow> place rnd k t geom wd =
               MoveResize k rnd r (X geom) (Y geom) (Width geom) (Height geom) wd) \<and>
      (\<forall>ls. leaf_seq k wd r = Some ls \<longrightarrow>
         (\<exists>ok. ValidDims k rnd wd r (Width geom) (Height geom) 1 1 (Width geom) (Height geom)
                = Some ok)))"
proof (intro conjI allI impI)
  show "place rnd k t geom wd = Some wd" if "child t = None"
    using that by (rule place_cases(1))
  show "place rnd k t geom wd = Some wd"
    if "child t = Some r"
      "ValidDims k rnd wd r (Width geom) (Height geom) 1 1 (Width geom) (Height geom) = Some False"
    for r
    using that by (rule place_cases(2))
  show "place rnd k t geom wd = MoveResize k rnd r (X geom) (Y geom) (Width geom) (Height geom) wd"
    if "child t = Some r"
      "ValidDims k rnd wd r (Width geom) (Height geom) 1 1 (Width geom) (Height geom) = Some True"
    for r
    using that by (rule place_cases(3))
  show "\<exists>ok. ValidDims k rnd wd r (Width geom) (Height geom) 1 1 (Width geom) (Height geom) = Some ok"
    if "leaf_seq k wd r = Some ls" for r ls
    using that by (rule ValidDims_total)
qed

text \<open>
  An instance: three leaves of a third each do not fit a target of width 1, and
  \<^verbatim>\<open>place\<close> leaves the world as it is.
\<close>

lemma third_eq: "fdiv fullPortion (float_of_len 3) = Finite (6004799503160661 / 18014398509481984)"
  by (simp add: float_eval)

lemma portion_third_1:
  "portion Round (Finite (6004799503160661 / 18014398509481984)) 1 = 0"
  by (simp add: portion_def float_eval round_half_away_def)

lemma ValidDims_world3:
  "ValidDims 1 Round world3 (SplitRef 0) 1 1 1 1 1 1 = Some False"
  by (simp add: world_eval third_eq portion_third_1 leaf_ValidDims_def word_sle_eq)

theorem place_checks_validity_witness:
  "child tree0 = Some (SplitRef 0) \<and>
   ValidDims 1 Round world3 (SplitRef 0) 1 1 1 1 1 1 = Some False \<and>
   place Round 1 tree0 \<lparr>X = 0, Y = 0, Width = 1, Height = 1\<rparr> world3 = Some world3"
proof -
  have c: "child tree0 = Some (SplitRef 0)"
    by (simp add: world_eval)
  have "place Round 1 tree0 \<lparr>X = 0, Y = 0, Width = 1, Height = 1\<rparr> world3 = Some world3"
    using place_checks_validity[of tree0 Round 1 "\<lparr>X = 0, Y = 0, Width = 1, Height = 1\<rparr>" world3]
      c ValidDims_world3
    by (simp del: ValidDims.simps One_nat_def)
  with c ValidDims_world3 show ?thesis by blast
qed

text \<open>
  C10.  When \<^verbatim>\<open>place\<close> returns, both heaps (every child sequence, parent link and
  proportion) are what they were, and the calls made on clients are the earlier ones
  followed by new ones.  It returns when the tree has no child and whenever the fuel
  reaches every leaf below the root.
\<close>

theorem place_only_adds_calls:
  "(\<forall>wd'. place rnd k t geom wd = Some wd' \<longrightarrow>
      splits wd' = splits wd \<and> leaves wd' = leaves wd \<and> (\<exists>cs. calls wd' = calls wd @ cs)) \<and>
   ((child t = None \<or> (\<exists>r ls. child t = Some r \<and> leaf_seq k wd r = Some ls)) \<longrightarrow>
      (\<exists>wd'. place rnd k t geom wd = Some wd'))"
proof (intro conjI allI impI)
  fix wd'
  assume "place rnd k t geom wd = Some wd'"
  then have "only_calls wd wd'" by (rule place_only_calls)
  then show "splits wd' = splits wd" "leaves wd' = leaves wd" "\<exists>cs. calls wd' = calls wd @ cs"
    by (simp_all add: only_calls_def)
next
  assume "child t = None \<or> (\<exists>r ls. child t = Some r \<and> leaf_seq k wd r = Some ls)"
  then show "\<exists>wd'. place rnd k t geom wd = Some wd'"
    using place_cases(1)[of t rnd k geom wd] place_total[of t _ k wd _ rnd geom] by blast
qed

text \<open>An instance: two leaves of one half each on a target of 100 by 50.\<close>

lemma half_eval:
  "fmul (float_of_int 100) (Finite (1 / 2)) = Finite 50"
  by (simp add: float_eval)

lemma portion_half_100: "portion Round (Finite (1 / 2)) 100 = 50"
  by (simp add: portion_def half_eval round_half_away_def)

lemma place_world2:
  "place Round 1 tree0 \<lparr>X = 0, Y = 0, Width = 100, Height = 50\<rparr> world2 =
     Some (world2\<lparr>calls := [CallFrameTile 1, CallMoveResize 1 0 0 50 50,
                             CallFrameTile 2, CallMoveResize 2 50 0 50 50]\<rparr>)"
  by (simp add: place_def world_eval portion_half_100 leaf_ValidDims_def leaf_MoveResize_def
      word_sle_eq)

theorem place_only_adds_calls_witness:
  "place Round 1 tree0 \<lparr>X = 0, Y = 0, Width = 100, Height = 50\<rparr> world2 =
     Some (world2\<lparr>calls := [CallFrameTile 1, CallMoveResize 1 0 0 50 50,
                             CallFrameTile 2, CallMoveResize 2 50 0 50 50]\<rparr>) \<and>
   splits (world2\<lparr>calls := [CallFrameTile 1, CallMoveResize 1 0 0 50 50,
                             CallFrameTile 2, CallMoveResize 2 50 0 50 50]\<rparr>) = splits world2 \<and>
   leaves (world2\<lparr>calls := [CallFrameTile 1, CallMoveResize 1 0 0 50 50,
                             CallFrameTile 2, CallMoveResize 2 50 0 50 50]\<rparr>) = leaves world2"
proof -
  from place_only_adds_calls[of Round 1 tree0 "\<lparr>X = 0, Y = 0, Width = 100, Height = 50\<rparr>" world2]
  have "\<forall>wd'. place Round 1 tree0 \<lparr>X = 0, Y = 0, Width = 100, Height = 50\<rparr> world2 = Some wd' \<longrightarrow>
      splits wd' = splits world2 \<and> leaves wd' = leaves world2 \<and> (\<exists>cs. calls wd' = calls world2 @ cs)"
    by (rule conjunct1)
  with place_world2 show ?thesis by blast
qed

lemma leaf_seq_world2: "leaf_seq 1 world2 (SplitRef 0) = Some [1, 2]"
  by (simp add: world_eval)

section \<open>Properties of the search for a client\<close>

text \<open>
  C7.  \<^verbatim>\<open>findLeaf\<close> returns nil on a tree without child.  On a tree whose leaves below
  the root are \<open>ls\<close> in depth-first order it returns the first leaf of \<open>ls\<close> whose
  client is \<open>c\<close>, and nil when there is none; and \<^verbatim>\<open>VisitLeafNodes\<close> with any visitor
  is that visitor run over \<open>ls\<close> in order up to the first leaf at which it answers
  false.
\<close>

theorem findLeaf_first_match:
  "(child t = None \<longrightarrow> findLeaf k t c w = Some None) \<and>
   (\<forall>r ls. child t = Some r \<longrightarrow> leaf_seq k w r = Some ls \<longrightarrow>
      findLeaf k t c w = Some (find (\<lambda>a. client (leaves w a) = c) ls) \<and>
      (\<forall>f acc. VisitLeafNodes k w r f acc = Some (visit_seq f ls acc)))"
proof (intro conjI allI impI)
  show "findLeaf k t c w = Some None" if "child t = None"
    using that by (rule findLeaf_empty)
  show "findLeaf k t c w = Some (find (\<lambda>a. client (leaves w a) = c) ls)"
    if "child t = Some r" "leaf_seq k w r = Some ls" for r ls
    using that by (rule findLeaf_seq)
  show "VisitLeafNodes k w r f acc = Some (visit_seq f ls acc)"
    if "leaf_seq k w r = Some ls" for r ls f acc
    using that by (rule VisitLeafNodes_seq)
qed

text \<open>An instance: client 2 is found at leaf 2, client 7 is not found.\<close>

theorem findLeaf_first_match_witness:
  "child tree0 = Some (SplitRef 0) \<and> leaf_seq 1 world2 (SplitRef 0) = Some [1, 2] \<and>
   findLeaf 1 tree0 2 world2 = Some (Some 2) \<and> findLeaf 1 tree0 7 world2 = Some None"
proof -
  have c: "child tree0 = Some (SplitRef 0)"
    by (simp add: world_eval)
  have f: "find (\<lambda>a. client (leaves world2 a) = 2) [1, 2] = Some 2"
     "find (\<lambda>a. client (leaves world2 a) = 7) [1, 2] = None"
    by (simp_all add: world_eval)
  have "findLeaf 1 tree0 x world2 = Some (find (\<lambda>a. client (leaves world2 a) = x) [1, 2])" for x
    using findLeaf_first_match[of tree0 1 x world2] c leaf_seq_world2 by blast
  with c leaf_seq_world2 f show ?thesis
    by (simp del: leaf_seq.simps find.simps One_nat_def)
qed

text \<open>
  C8.  When one of the two searches of \<^verbatim>\<open>switchClients\<close> returns nil the world is
  returned as it is.  When they return the leaves \<open>l1\<close> and \<open>l2\<close>, the client of each
  becomes the former client of the other; the splits, the calls, the parent link and the
  proportion of every leaf, and every other leaf are what they were.
\<close>

theorem switchClients_swaps:
  "(\<forall>lf1 lf2. findLeaf k t c1 w = Some lf1 \<longrightarrow> findLeaf k t c2 w = Some lf2 \<longrightarrow>
      (lf1 = None \<or> lf2 = None) \<longrightarrow> switchClients k t c1 c2 w = Some w) \<and>
   (\<forall>l1 l2. findLeaf k t c1 w = Some (Some l1) \<longrightarrow> findLeaf k t c2 w = Some (Some l2) \<longrightarrow>
      (\<exists>w'. switchClients k t c1 c2 w = Some w' \<and>
           splits w' = splits w \<and> calls w' = calls w \<and>
           client (leaves w' l1) = client (leaves w l2) \<and>
           client (leaves w' l2) = client (leaves w l1) \<and>
           (\<forall>a. leaf.parent (leaves w' a) = leaf.parent (leaves w a) \<and>
                leaf.prop' (leaves w' a) = leaf.prop' (leaves w a) \<and>
                (a \<noteq> l1 \<and> a \<noteq> l2 \<longrightarrow> leaves w' a = leaves w a))))"
proof (intro conjI allI impI)
  show "switchClients k t c1 c2 w = Some w"
    if "findLeaf k t c1 w = Some lf1" "findLeaf k t c2 w = Some lf2" "lf1 = None \<or> lf2 = None"
    for lf1 lf2
    using that by (rule switchClients_absent)
  show "\<exists>w'. switchClients k t c1 c2 w = Some w' \<and>
           splits w' = splits w \<and> calls w' = calls w \<and>
           client (leaves w' l1) = client (leaves w l2) \<and>
           client (leaves w' l2) = client (leaves w l1) \<and>
           (\<forall>a. leaf.parent (leaves w' a) = leaf.parent (leaves w a) \<and>
                leaf.prop' (leaves w' a) = leaf.prop' (leaves w a) \<and>
                (a \<noteq> l1 \<and> a \<noteq> l2 \<longrightarrow> leaves w' a = leaves w a))"
    if "findLeaf k t c1 w = Some (Some l1)" "findLeaf k t c2 w = Some (Some l2)" for l1 l2
    using that by (rule switchClients_present)
qed

text \<open>An instance: clients 1 and 2 are swapped, clients 1 and 7 are not.\<close>

lemma findLeaf_world2:
  "findLeaf 1 tree0 1 world2 = Some (Some 1)"
  "findLeaf 1 tree0 2 world2 = Some (Some 2)"
  "findLeaf 1 tree0 7 world2 = Some None"
  by (simp_all add: findLeaf_def findLeaf_visit_def world_eval)

theorem switchClients_swaps_witness:
  "findLeaf 1 tree0 1 world2 = Some (Some 1) \<and> findLeaf 1 tree0 2 world2 = Some (Some 2) \<and>
   findLeaf 1 tree0 7 world2 = Some None \<and>
   switchClients 1 tree0 1 7 world2 = Some world2 \<and>
   (\<exists>w'. switchClients 1 tree0 1 2 world2 = Some w' \<and> splits w' = splits world2 \<and>
      client (leaves w' 1) = client (leaves world2 2) \<and>
      client (leaves w' 2) = client (leaves world2 1))"
proof -
  have a: "switchClients 1 tree0 1 7 world2 = Some world2"
    using switchClients_swaps[of 1 tree0 1 world2 7] findLeaf_world2(1,3) by blast
  have b: "\<exists>w'. switchClients 1 tree0 1 2 world2 = Some w' \<and> splits w' = splits world2 \<and>
      client (leaves w' 1) = client (leaves world2 2) \<and>
      client (leaves w' 2) = client (leaves world2 1)"
    using switchClients_swaps[of 1 tree0 1 world2 2] findLeaf_world2(1,2) by blast
  from a b findLeaf_world2 show ?thesis by blast
qed

section \<open>Facts about rounding\<close>




















section \<open>Properties of the proportions as numbers\<close>









































end
